theory Spec2Isabelle
  imports Main "HOL-Library.Multiset" "HOL-Library.Char_ord" "HOL-Library.List_Lexorder"
begin

section \<open>lib/data.ts: clients and the table of sortable fields\<close>

text \<open>
  A \<open>Date\<close> holds a time value, the milliseconds since the epoch, or none at all
  (\<open>new Date(NaN)\<close>, the Invalid Date); \<open>getTime()\<close> returns the time value, or NaN.
  A number of the language is an integer or NaN here: the comparator only subtracts time
  values, negates, and tests a result against zero. The comparator reads a date through
  the truthiness test \<open>a[field] ? ... : 0\<close>, so a date property is an \<open>option\<close>:
  \<open>None\<close> is the null/undefined property the source provides for, and every
  \<open>Date\<close> object, the Invalid Date too, is truthy.
\<close>

datatype Date = Time int | InvalidDate

datatype number = Fin int | NaN

fun getTime :: "Date \<Rightarrow> number" where
  "getTime (Time t) = Fin t"
| "getTime InvalidDate = NaN"

datatype ClientStatus = Active | Inactive | Pending | Suspended

fun status_text :: "ClientStatus \<Rightarrow> string" where
  "status_text Active = ''active''"
| "status_text Inactive = ''inactive''"
| "status_text Pending = ''pending''"
| "status_text Suspended = ''suspended''"

record Client =
  id_client :: string
  name :: string
  email :: string
  createdAt :: "Date option"
  updatedAt :: "Date option"
  status :: ClientStatus

record ClientField =
  id_field :: string
  label :: string
  type_field :: string

definition clientFields :: "ClientField list" where
  "clientFields =
     [\<lparr>id_field = ''name'', label = ''Name'', type_field = ''string''\<rparr>,
      \<lparr>id_field = ''email'', label = ''Email'', type_field = ''string''\<rparr>,
      \<lparr>id_field = ''createdAt'', label = ''Created At'', type_field = ''date''\<rparr>,
      \<lparr>id_field = ''updatedAt'', label = ''Updated At'', type_field = ''date''\<rparr>,
      \<lparr>id_field = ''status'', label = ''Status'', type_field = ''string''\<rparr>]"

text \<open>
  \<open>ClientFieldId\<close> is a compile-time union of the five identifiers above. It is erased
  at run time, and criteria restored from storage carry whatever string was stored, so a
  field identifier is a \<open>string\<close> here.
\<close>

type_synonym ClientFieldId = string

section \<open>lib/sort-utils.ts\<close>

datatype SortDirection = Asc | Desc

record SortCriterion =
  id_crit :: string
  field :: ClientFieldId
  direction :: SortDirection

subsection \<open>The values the comparator inspects\<close>

text \<open>
  \<open>valA\<close> and \<open>valB\<close> are typed \<open>any\<close>; the comparator branches on \<open>typeof\<close>.
  \<open>get_prop\<close> is \<open>a[field]\<close> in the branch for the fields other than the two dates:
  a string, or \<open>undefined\<close> when the client has no such property. \<open>get_date\<close> is
  \<open>a[field]\<close> in the branch for the two dates.
\<close>

datatype jsval = Undefined | Str string | Num number

definition get_prop :: "Client \<Rightarrow> ClientFieldId \<Rightarrow> jsval" where
  "get_prop a f =
     (if f = ''id'' then Str (id_client a)
      else if f = ''name'' then Str (name a)
      else if f = ''email'' then Str (email a)
      else if f = ''status'' then Str (status_text (status a))
      else Undefined)"

definition get_date :: "Client \<Rightarrow> ClientFieldId \<Rightarrow> Date option" where
  "get_date a f = (if f = ''createdAt'' then createdAt a else updatedAt a)"

text \<open>
  Lines 48-55: a date field is converted by \<open>getTime()\<close>, to \<open>0\<close> when the property
  is missing; any other field is used as it is.
\<close>

definition sort_value :: "Client \<Rightarrow> ClientFieldId \<Rightarrow> jsval" where
  "sort_value a f =
     (if f = ''createdAt'' \<or> f = ''updatedAt''
      then (case get_date a f of Some d \<Rightarrow> Num (getTime d) | None \<Rightarrow> Num (Fin 0))
      else get_prop a f)"

text \<open>
  The relational operator of the fallback branch. An \<open>undefined\<close> operand converts to
  NaN, and every comparison with NaN is false. Two strings or two numbers never reach the
  fallback (the earlier branches take them); they are given their JavaScript meaning
  all the same. A string never meets a number: both operands of one call are read from
  the same property of two clients (lemma \<open>sort_value_same_kind\<close> below).
\<close>

fun js_less :: "jsval \<Rightarrow> jsval \<Rightarrow> bool" where
  "js_less (Num (Fin m)) (Num (Fin n)) = (m < n)"
| "js_less (Str s) (Str t) = (s < t)"
| "js_less _ _ = False"

text \<open>
  \<open>valA - valB\<close> and \<open>-comparison\<close>: NaN when an operand is NaN. The difference of
  two time values is exact in sign, so integer subtraction stands for it.
\<close>

fun subtract :: "number \<Rightarrow> number \<Rightarrow> number" where
  "subtract (Fin m) (Fin n) = Fin (m - n)"
| "subtract _ _ = NaN"

fun negate :: "number \<Rightarrow> number" where
  "negate (Fin c) = Fin (- c)"
| "negate NaN = NaN"

text \<open>
  Lines 57-71. \<open>localeCompare\<close> is the host's collation; it is the parameter \<open>lc\<close>,
  and it never returns NaN.
\<close>

fun comparison :: "(string \<Rightarrow> string \<Rightarrow> int) \<Rightarrow> jsval \<Rightarrow> jsval \<Rightarrow> number" where
  "comparison lc (Str s) (Str t) = Fin (lc s t)"
| "comparison lc (Num m) (Num n) = subtract m n"
| "comparison lc valA valB =
     (if js_less valA valB then Fin (- 1) else if js_less valB valA then Fin 1 else Fin 0)"

definition criterion_comparison :: "(string \<Rightarrow> string \<Rightarrow> int) \<Rightarrow> ClientFieldId \<Rightarrow> Client \<Rightarrow> Client \<Rightarrow> number" where
  "criterion_comparison lc f a b = comparison lc (sort_value a f) (sort_value b f)"

text \<open>
  The comparator passed to \<open>sort\<close> (lines 38-81): the loop over the criteria.
  \<open>comparison !== 0\<close> holds of NaN, so a NaN comparison is returned at once and the
  criteria after it are not consulted.
\<close>

fun compareClients :: "(string \<Rightarrow> string \<Rightarrow> int) \<Rightarrow> SortCriterion list \<Rightarrow> Client \<Rightarrow> Client \<Rightarrow> number" where
  "compareClients lc [] a b = Fin 0"
| "compareClients lc (criterion # rest) a b =
     (let c = criterion_comparison lc (field criterion) a b
      in if c \<noteq> Fin 0 then (if direction criterion = Asc then c else negate c)
         else compareClients lc rest a b)"

subsection \<open>Array.prototype.sort\<close>

text \<open>
  \<open>sort\<close> is a built-in of the language. It reads what the comparator returns as a
  number and takes NaN as \<open>+0\<close>, a tie (\<open>sort_order\<close>). ECMAScript requires it to be
  stable and, for a consistent comparator, to return the elements ordered by it; the
  result is then unique, whatever algorithm the engine runs (lemma \<open>array_sort_unique\<close>).
  Insertion from the right is one such algorithm: an element goes in front of the first
  element it does not compare greater than. For a comparator that is not consistent the
  language leaves the order to the engine, and \<open>array_sort\<close> is one of the orders it
  may produce.
\<close>

fun sort_order :: "number \<Rightarrow> int" where
  "sort_order (Fin v) = v"
| "sort_order NaN = 0"

fun insert_sorted :: "('a \<Rightarrow> 'a \<Rightarrow> int) \<Rightarrow> 'a \<Rightarrow> 'a list \<Rightarrow> 'a list" where
  "insert_sorted cmp x [] = [x]"
| "insert_sorted cmp x (y # ys) = (if cmp x y \<le> 0 then x # y # ys else y # insert_sorted cmp x ys)"

fun array_sort :: "('a \<Rightarrow> 'a \<Rightarrow> int) \<Rightarrow> 'a list \<Rightarrow> 'a list" where
  "array_sort cmp [] = []"
| "array_sort cmp (x # xs) = insert_sorted cmp x (array_sort cmp xs)"

subsection \<open>applyMultiSort\<close>

text \<open>
  On values: the clients of the argument in, the clients of the result out. The function
  on the heap follows; lemma \<open>applyMultiSort_heap_refines\<close> relates the two.
\<close>

definition applyMultiSort :: "(string \<Rightarrow> string \<Rightarrow> int) \<Rightarrow> Client list \<Rightarrow> SortCriterion list \<Rightarrow> Client list" where
  "applyMultiSort lc clients criteria =
     (if length criteria = 0 then clients
      else array_sort (\<lambda>a b. sort_order (compareClients lc criteria a b)) clients)"

text \<open>
  The source has no \<open>throw\<close>, never reads the table \<open>clientFields\<close>, and calls
  nothing that throws on a client and a criterion: a call always returns. The outcome of
  a call is made a value, so that what a call does about failures can be stated.
\<close>

datatype sort_error = InvalidFieldKind | UnknownField

definition applyMultiSort_outcome ::
  "(string \<Rightarrow> string \<Rightarrow> int) \<Rightarrow> Client list \<Rightarrow> SortCriterion list \<Rightarrow> sort_error + Client list" where
  "applyMultiSort_outcome lc clients criteria = Inr (applyMultiSort lc clients criteria)"

subsection \<open>applyMultiSort on the heap\<close>

text \<open>
  Arrays and clients are objects. An array holds references to clients; two arrays may
  hold the same references. Objects are addressed by their position in the heap, so a
  reference is valid when it is below the length of its table. \<open>[...clients]\<close> allocates
  a new array with the elements of the old one; \<open>sort\<close> reorders the array it is called
  on and returns it.
\<close>

type_synonym ref = nat

record heap =
  objects :: "Client list"
  arrays :: "ref list list"

definition spread :: "heap \<Rightarrow> ref \<Rightarrow> heap \<times> ref" where
  "spread h a = (h\<lparr>arrays := arrays h @ [arrays h ! a]\<rparr>, length (arrays h))"

definition sort_in_place :: "(Client \<Rightarrow> Client \<Rightarrow> number) \<Rightarrow> heap \<Rightarrow> ref \<Rightarrow> heap \<times> ref" where
  "sort_in_place cmp h a =
     (h\<lparr>arrays := (arrays h)[a := array_sort (\<lambda>x y. sort_order (cmp (objects h ! x) (objects h ! y)))
                                     (arrays h ! a)]\<rparr>, a)"

definition applyMultiSort_heap ::
  "(string \<Rightarrow> string \<Rightarrow> int) \<Rightarrow> heap \<Rightarrow> ref \<Rightarrow> SortCriterion list \<Rightarrow> heap \<times> ref" where
  "applyMultiSort_heap lc h clients criteria =
     (if length criteria = 0 then spread h clients
      else (case spread h clients of (h1, copy) \<Rightarrow> sort_in_place (compareClients lc criteria) h1 copy))"

text \<open>The clients an array reference stands for.\<close>

definition contents :: "heap \<Rightarrow> ref \<Rightarrow> Client list" where
  "contents h a = map (\<lambda>r. objects h ! r) (arrays h ! a)"

section \<open>components/sort-panel.tsx: the operations on the criteria\<close>

text \<open>
  Each handler computes the next value of \<open>sortCriteria\<close> from the current one and
  passes it to \<open>onSortCriteriaChange\<close>; where a handler does not call it, the criteria
  stay as they are. \<open>Date.now()\<close> and the selected field are arguments.
\<close>

fun show_nat :: "nat \<Rightarrow> string" where
  "show_nat n = (if n < 10 then [''0123456789'' ! n] else show_nat (n div 10) @ [''0123456789'' ! (n mod 10)])"

declare show_nat.simps [simp del]

definition new_id :: "nat \<Rightarrow> ClientFieldId \<Rightarrow> string" where
  "new_id now selectedField = ''sort-'' @ show_nat now @ ''-'' @ selectedField"

definition handleAddField :: "nat \<Rightarrow> ClientFieldId \<Rightarrow> SortCriterion list \<Rightarrow> SortCriterion list" where
  "handleAddField now selectedField sortCriteria =
     (if selectedField \<noteq> [] \<and> \<not> list_ex (\<lambda>c. field c = selectedField) sortCriteria
      then sortCriteria @ [\<lparr>id_crit = new_id now selectedField, field = selectedField, direction = Asc\<rparr>]
      else sortCriteria)"

definition handleRemoveCriterion :: "string \<Rightarrow> SortCriterion list \<Rightarrow> SortCriterion list" where
  "handleRemoveCriterion i sortCriteria = filter (\<lambda>c. id_crit c \<noteq> i) sortCriteria"

definition handleToggleDirection :: "string \<Rightarrow> SortCriterion list \<Rightarrow> SortCriterion list" where
  "handleToggleDirection i sortCriteria =
     map (\<lambda>c. if id_crit c = i then c\<lparr>direction := (if direction c = Asc then Desc else Asc)\<rparr> else c)
       sortCriteria"

text \<open>\<open>findIndex\<close> returns \<open>-1\<close> when no element matches: \<open>None\<close> here.\<close>

fun findIndex :: "('a \<Rightarrow> bool) \<Rightarrow> 'a list \<Rightarrow> nat option" where
  "findIndex P [] = None"
| "findIndex P (x # xs) = (if P x then Some 0 else map_option Suc (findIndex P xs))"

text \<open>
  \<open>splice(i, 1)\<close> removes the element at \<open>i\<close>; \<open>splice(j, 0, x)\<close> inserts \<open>x\<close>
  at \<open>j\<close>, at the end when \<open>j\<close> is beyond it (\<open>take\<close> and \<open>drop\<close> do the same).
\<close>

definition splice_remove :: "nat \<Rightarrow> 'a list \<Rightarrow> 'a list" where
  "splice_remove i xs = take i xs @ drop (Suc i) xs"

definition splice_insert :: "nat \<Rightarrow> 'a \<Rightarrow> 'a list \<Rightarrow> 'a list" where
  "splice_insert j x xs = take j xs @ x # drop j xs"

text \<open>
  \<open>active.id\<close> is the identity of the dragged item; \<open>over?.id\<close> is undefined
  (\<open>None\<close>) when the item is dropped outside every other item.
\<close>

definition handleDragEnd :: "string \<Rightarrow> string option \<Rightarrow> SortCriterion list \<Rightarrow> SortCriterion list" where
  "handleDragEnd active over sortCriteria =
     (if Some active \<noteq> over then
        (case findIndex (\<lambda>c. Some (id_crit c) = Some active) sortCriteria of
           None \<Rightarrow> sortCriteria
         | Some oldIndex \<Rightarrow>
             (case findIndex (\<lambda>c. Some (id_crit c) = over) sortCriteria of
                None \<Rightarrow> sortCriteria
              | Some newIndex \<Rightarrow>
                  splice_insert newIndex (sortCriteria ! oldIndex) (splice_remove oldIndex sortCriteria)))
      else sortCriteria)"

text \<open>The criteria sequences the panel can produce from the empty one.\<close>

inductive reachable :: "SortCriterion list \<Rightarrow> bool" where
  initial: "reachable []"
| add: "reachable cs \<Longrightarrow> reachable (handleAddField now f cs)"
| remove: "reachable cs \<Longrightarrow> reachable (handleRemoveCriterion i cs)"
| toggle: "reachable cs \<Longrightarrow> reachable (handleToggleDirection i cs)"
| reorder: "reachable cs \<Longrightarrow> reachable (handleDragEnd active over cs)"

section \<open>app/page.tsx: saving and restoring the criteria\<close>

text \<open>
  A stored item is a text. \<open>JSON.parse\<close> and \<open>JSON.stringify\<close> are built-ins; a
  text is represented by what \<open>JSON.parse\<close> makes of it: the empty text (falsy, never
  parsed), a text that makes \<open>JSON.parse\<close> throw, or a text that parses to a value.
  \<open>JSON.stringify\<close> of a value is a text that parses to that value. The properties of
  a parsed object are an association list with distinct keys. A number is only ever
  tested for being zero; integers stand for the numbers.
\<close>

datatype json = JNull | JBool bool | JNum int | JStr string | JArr "json list" | JObj "(string \<times> json) list"

datatype stored_text = Empty | Malformed | Wellformed json

datatype console = Quiet | Warn | Error

fun truthy :: "json \<Rightarrow> bool" where
  "truthy JNull = False"
| "truthy (JBool b) = b"
| "truthy (JNum n) = (n \<noteq> 0)"
| "truthy (JStr s) = (s \<noteq> [])"
| "truthy (JArr _) = True"
| "truthy (JObj _) = True"

definition truthy_prop :: "(string \<times> json) list \<Rightarrow> string \<Rightarrow> bool" where
  "truthy_prop kvs k = (case map_of kvs k of None \<Rightarrow> False | Some v \<Rightarrow> truthy v)"

text \<open>
  The callback \<open>(c) => c.id && c.field && c.direction\<close>: reading a property of
  \<open>null\<close> throws a TypeError (\<open>None\<close>); a number, a string, a boolean or an array
  has none of the three properties.
\<close>

fun valid_element :: "json \<Rightarrow> bool option" where
  "valid_element JNull = None"
| "valid_element (JObj kvs) = Some (truthy_prop kvs ''id'' \<and> truthy_prop kvs ''field'' \<and> truthy_prop kvs ''direction'')"
| "valid_element _ = Some False"

text \<open>\<open>every\<close> stops at the first element the callback rejects, or at its exception.\<close>

fun every_valid :: "json list \<Rightarrow> bool option" where
  "every_valid [] = Some True"
| "every_valid (c # cs) =
     (case valid_element c of
        None \<Rightarrow> None
      | Some False \<Rightarrow> Some False
      | Some True \<Rightarrow> every_valid cs)"

text \<open>
  The load effect, run once on mount with \<open>sortCriteria = []\<close>. \<open>restored\<close> is the
  value of \<open>sortCriteria\<close> after it, \<open>stored\<close> the item after it (\<open>removeItem\<close>
  leaves \<open>None\<close>), \<open>logged\<close> what went to the console.
\<close>

record load_result =
  restored :: "json list"
  stored :: "stored_text option"
  logged :: console

definition load :: "stored_text option \<Rightarrow> load_result" where
  "load savedCriteria =
     (case savedCriteria of
        None \<Rightarrow> \<lparr>restored = [], stored = savedCriteria, logged = Quiet\<rparr>
      | Some Empty \<Rightarrow> \<lparr>restored = [], stored = savedCriteria, logged = Quiet\<rparr>
      | Some Malformed \<Rightarrow> \<lparr>restored = [], stored = None, logged = Error\<rparr>
      | Some (Wellformed parsedCriteria) \<Rightarrow>
          (case parsedCriteria of
             JArr cs \<Rightarrow>
               (case every_valid cs of
                  Some True \<Rightarrow> \<lparr>restored = cs, stored = savedCriteria, logged = Quiet\<rparr>
                | Some False \<Rightarrow> \<lparr>restored = [], stored = None, logged = Warn\<rparr>
                | None \<Rightarrow> \<lparr>restored = [], stored = None, logged = Error\<rparr>)
           | _ \<Rightarrow> \<lparr>restored = [], stored = None, logged = Warn\<rparr>))"

text \<open>
  The save effect: \<open>JSON.stringify(sortCriteria)\<close>. A criterion is an object with the
  properties \<open>id\<close>, \<open>field\<close> and \<open>direction\<close>, in this order, all strings.
\<close>

fun direction_text :: "SortDirection \<Rightarrow> string" where
  "direction_text Asc = ''asc''"
| "direction_text Desc = ''desc''"

definition criterion_json :: "SortCriterion \<Rightarrow> json" where
  "criterion_json c =
     JObj [(''id'', JStr (id_crit c)), (''field'', JStr (field c)), (''direction'', JStr (direction_text (direction c)))]"

definition save :: "SortCriterion list \<Rightarrow> stored_text option" where
  "save sortCriteria = Some (Wellformed (JArr (map criterion_json sortCriteria)))"

section \<open>Notions used to state the properties\<close>

text \<open>
  A consistent comparator in the sense of ECMAScript: it compares every value equal to
  itself, swapping the arguments swaps the sign, and "not greater" is transitive.
\<close>

definition consistent :: "('a \<Rightarrow> 'a \<Rightarrow> int) \<Rightarrow> bool" where
  "consistent cmp \<longleftrightarrow>
     (\<forall>a. cmp a a = 0) \<and>
     (\<forall>a b. (cmp a b < 0) = (0 < cmp b a)) \<and>
     (\<forall>a b c. cmp a b \<le> 0 \<and> cmp b c \<le> 0 \<longrightarrow> cmp a c \<le> 0)"

text \<open>One collation to run examples with: the order of the code units.\<close>

definition code_unit_compare :: "string \<Rightarrow> string \<Rightarrow> int" where
  "code_unit_compare s t = (if s < t then - 1 else if t < s then 1 else 0)"

text \<open>The properties a client object has: the keys of its type, dates only when set.\<close>

definition has_prop :: "Client \<Rightarrow> ClientFieldId \<Rightarrow> bool" where
  "has_prop a f =
     (f = ''id'' \<or> f = ''name'' \<or> f = ''email'' \<or> f = ''status''
      \<or> (f = ''createdAt'' \<and> createdAt a \<noteq> None)
      \<or> (f = ''updatedAt'' \<and> updatedAt a \<noteq> None))"

definition client_keys :: "ClientFieldId list" where
  "client_keys = [''id'', ''name'', ''email'', ''createdAt'', ''updatedAt'', ''status'']"

text \<open>What the load effect requires of an element of the parsed array.\<close>

definition has_truthy_props :: "json \<Rightarrow> bool" where
  "has_truthy_props c =
     (case c of JObj kvs \<Rightarrow> truthy_prop kvs ''id'' \<and> truthy_prop kvs ''field'' \<and> truthy_prop kvs ''direction''
      | _ \<Rightarrow> False)"

text \<open>
  The comparison of two clients by one field, written from the description of the sort
  (per-criterion comparison) and from the fields of the clients, not from the comparator:
  a text field is compared by the collation and a date field by the numeric instant. A
  missing date counts as the instant \<open>0\<close>. An Invalid Date has no instant: the date
  field does not tell it apart from any other date, which is a tie.
\<close>

definition instant :: "Date option \<Rightarrow> int option" where
  "instant d = (case d of None \<Rightarrow> Some 0 | Some (Time t) \<Rightarrow> Some t | Some InvalidDate \<Rightarrow> None)"

definition date_comparison :: "Date option \<Rightarrow> Date option \<Rightarrow> int" where
  "date_comparison d e =
     (case instant d of
        None \<Rightarrow> 0
      | Some s \<Rightarrow> (case instant e of None \<Rightarrow> 0 | Some t \<Rightarrow> s - t))"

definition field_comparison :: "(string \<Rightarrow> string \<Rightarrow> int) \<Rightarrow> ClientFieldId \<Rightarrow> Client \<Rightarrow> Client \<Rightarrow> int" where
  "field_comparison lc f a b =
     (if f = ''name'' then lc (name a) (name b)
      else if f = ''email'' then lc (email a) (email b)
      else if f = ''status'' then lc (status_text (status a)) (status_text (status b))
      else if f = ''createdAt'' then date_comparison (createdAt a) (createdAt b)
      else if f = ''updatedAt'' then date_comparison (updatedAt a) (updatedAt b)
      else if f = ''id'' then lc (id_client a) (id_client b)
      else 0)"

text \<open>The field can order the client: it is not a date field holding an Invalid Date.\<close>

definition sortable_on :: "Client \<Rightarrow> ClientFieldId \<Rightarrow> bool" where
  "sortable_on r f \<longleftrightarrow>
     (f = ''createdAt'' \<longrightarrow> createdAt r \<noteq> Some InvalidDate) \<and>
     (f = ''updatedAt'' \<longrightarrow> updatedAt r \<noteq> Some InvalidDate)"




text \<open>
  The same order as one comparator: compare by criterion 0; if equal, by criterion 1;
  and so on until a criterion gives a non-zero comparison or none is left.
\<close>

fun criteria_comparison :: "(string \<Rightarrow> string \<Rightarrow> int) \<Rightarrow> SortCriterion list \<Rightarrow> Client \<Rightarrow> Client \<Rightarrow> int" where
  "criteria_comparison lc [] a b = 0"
| "criteria_comparison lc (c # cs) a b =
     (if field_comparison lc (field c) a b \<noteq> 0
      then (if direction c = Asc then field_comparison lc (field c) a b
            else - field_comparison lc (field c) a b)
      else criteria_comparison lc cs a b)"




text \<open>
  A client with its Invalid Dates taken away. It is the client itself on every field
  that can order it, and two such clients are compared consistently by every field.
\<close>

definition without_invalid :: "Date option \<Rightarrow> Date option" where
  "without_invalid d = (if d = Some InvalidDate then None else d)"

definition repair :: "Client \<Rightarrow> Client" where
  "repair r = r\<lparr>createdAt := without_invalid (createdAt r), updatedAt := without_invalid (updatedAt r)\<rparr>"

text \<open>Every identity of the sequence was generated by \<open>handleAddField\<close> for its own field.\<close>

definition generated :: "SortCriterion list \<Rightarrow> bool" where
  "generated cs \<longleftrightarrow> (\<forall>c\<in>set cs. \<exists>t. id_crit c = new_id t (field c))"

section \<open>Example data\<close>

definition bob :: Client where
  "bob = \<lparr>id_client = ''1'', name = ''Bob'', email = ''bob@example.com'',
           createdAt = Some (Time 1000), updatedAt = Some (Time 5000), status = Active\<rparr>"

definition amy :: Client where
  "amy = \<lparr>id_client = ''2'', name = ''Amy'', email = ''amy@example.com'',
           createdAt = Some (Time 1000), updatedAt = Some (Time 6000), status = Pending\<rparr>"

definition amy2 :: Client where
  "amy2 = \<lparr>id_client = ''3'', name = ''Amy'', email = ''amy2@example.com'',
            createdAt = Some (Time 2000), updatedAt = Some (Time 7000), status = Active\<rparr>"

definition by_name_then_newest :: "SortCriterion list" where
  "by_name_then_newest =
     [\<lparr>id_crit = ''sort-1-name'', field = ''name'', direction = Asc\<rparr>,
      \<lparr>id_crit = ''sort-2-createdAt'', field = ''createdAt'', direction = Desc\<rparr>]"

definition undated :: Client where
  "undated = \<lparr>id_client = ''4'', name = ''Cal'', email = ''cal@example.com'',
               createdAt = None, updatedAt = None, status = Inactive\<rparr>"

definition early :: Client where
  "early = \<lparr>id_client = ''5'', name = ''Dee'', email = ''dee@example.com'',
             createdAt = Some (Time (- 1)), updatedAt = Some (Time 0), status = Suspended\<rparr>"






definition sample_heap :: heap where
  "sample_heap = \<lparr>objects = [bob, amy, amy2], arrays = [[0, 1, 2]]\<rparr>"

definition stored_bogus :: "stored_text option" where
  "stored_bogus = Some (Wellformed (JArr
     [JObj [(''id'', JStr ''x''), (''field'', JStr ''bogus''), (''direction'', JStr ''sideways'')]]))"

section \<open>Consistent comparators and the sort\<close>

lemma consistent_refl: "consistent cmp \<Longrightarrow> cmp a a = 0"
  by (simp add: consistent_def)

lemma consistent_flip: "consistent cmp \<Longrightarrow> (cmp a b < 0) = (0 < cmp b a)"
  by (simp add: consistent_def)

lemma consistent_zero_sym: "consistent cmp \<Longrightarrow> (cmp a b = 0) = (cmp b a = 0)"
  by (metis consistent_flip less_irrefl linorder_neqE_linordered_idom)

lemma consistent_trans: "consistent cmp \<Longrightarrow> cmp a b \<le> 0 \<Longrightarrow> cmp b c \<le> 0 \<Longrightarrow> cmp a c \<le> 0"
  unfolding consistent_def by blast

lemma consistent_total: "consistent cmp \<Longrightarrow> 0 < cmp a b \<Longrightarrow> cmp b a \<le> 0"
  using consistent_flip[of cmp b a] by simp

lemma consistent_zero_trans:
  assumes "consistent cmp" "cmp a b = 0" "cmp b c = 0" shows "cmp a c = 0"
proof -
  have 1: "cmp a c \<le> 0" using assms consistent_trans[of cmp a b c] by simp
  have "cmp c b = 0" "cmp b a = 0" using assms consistent_zero_sym by metis+
  then have "cmp c a \<le> 0" using assms consistent_trans[of cmp c b a] by simp
  then have "\<not> cmp a c < 0" using consistent_flip[OF assms(1), of a c] by simp
  with 1 show ?thesis by simp
qed

lemma mset_insert_sorted: "mset (insert_sorted cmp x xs) = add_mset x (mset xs)"
  by (induction xs) auto

lemma mset_array_sort: "mset (array_sort cmp xs) = mset xs"
  by (induction xs) (auto simp: mset_insert_sorted)

lemma set_insert_sorted: "set (insert_sorted cmp x xs) = insert x (set xs)"
  by (induction xs) auto

lemma sorted_insert_sorted:
  assumes "consistent cmp" "sorted_wrt (\<lambda>a b. cmp a b \<le> 0) xs"
  shows "sorted_wrt (\<lambda>a b. cmp a b \<le> 0) (insert_sorted cmp x xs)"
  using assms(2)
proof (induction xs)
  case Nil then show ?case by simp
next
  case (Cons y ys)
  show ?case
  proof (cases "cmp x y \<le> 0")
    case True
    have "\<forall>z\<in>set ys. cmp x z \<le> 0"
      using Cons.prems True consistent_trans[OF assms(1), of x y] by auto
    with True Cons.prems show ?thesis by simp
  next
    case False
    then have "cmp y x \<le> 0" using consistent_total[OF assms(1), of x y] by simp
    with False Cons show ?thesis by (auto simp: set_insert_sorted)
  qed
qed

lemma sorted_array_sort:
  "consistent cmp \<Longrightarrow> sorted_wrt (\<lambda>a b. cmp a b \<le> 0) (array_sort cmp xs)"
  by (induction xs) (auto simp: sorted_insert_sorted)

lemma filter_insert_sorted_equiv:
  assumes "consistent cmp" "cmp k x = 0"
  shows "filter (\<lambda>y. cmp k y = 0) (insert_sorted cmp x xs) = x # filter (\<lambda>y. cmp k y = 0) xs"
proof (induction xs)
  case Nil then show ?case using assms by simp
next
  case (Cons y ys)
  show ?case
  proof (cases "cmp x y \<le> 0")
    case True then show ?thesis using assms by simp
  next
    case False
    have "cmp k y \<noteq> 0"
    proof
      assume "cmp k y = 0"
      moreover have "cmp x k = 0" using assms consistent_zero_sym by metis
      ultimately have "cmp x y = 0" using consistent_zero_trans[OF assms(1)] by blast
      with False show False by simp
    qed
    with False Cons show ?thesis by simp
  qed
qed

lemma filter_insert_sorted_other:
  "\<not> P x \<Longrightarrow> filter P (insert_sorted cmp x xs) = filter P xs"
  by (induction xs) auto

lemma stable_array_sort:
  "consistent cmp \<Longrightarrow> filter (\<lambda>y. cmp k y = 0) (array_sort cmp xs) = filter (\<lambda>y. cmp k y = 0) xs"
  by (induction xs) (auto simp: filter_insert_sorted_equiv filter_insert_sorted_other)

lemma insert_sorted_map:
  "map f (insert_sorted (\<lambda>x y. cmp (f x) (f y)) x xs) = insert_sorted cmp (f x) (map f xs)"
  by (induction xs) auto

lemma array_sort_map:
  "map f (array_sort (\<lambda>x y. cmp (f x) (f y)) xs) = array_sort cmp (map f xs)"
  by (induction xs) (auto simp: insert_sorted_map)

text \<open>
  The sort is determined by what ECMAScript requires of it: a list that is ordered by a
  consistent comparator and keeps the input order within every class of equal elements is
  the list \<open>array_sort\<close> returns.
\<close>

lemma sorted_stable_unique:
  assumes c: "consistent cmp"
  shows "sorted_wrt (\<lambda>a b. cmp a b \<le> 0) ys \<Longrightarrow> sorted_wrt (\<lambda>a b. cmp a b \<le> 0) zs \<Longrightarrow>
         (\<And>k. filter (\<lambda>w. cmp k w = 0) ys = filter (\<lambda>w. cmp k w = 0) zs) \<Longrightarrow> ys = zs"
proof (induction ys arbitrary: zs)
  case Nil
  show ?case
  proof (cases zs)
    case Nil then show ?thesis by simp
  next
    case (Cons z zs')
    have "filter (\<lambda>w. cmp z w = 0) [] = filter (\<lambda>w. cmp z w = 0) zs" by (rule Nil.prems(3))
    then show ?thesis using Cons consistent_refl[OF c, of z] by simp
  qed
next
  case (Cons y ys')
  have yy: "cmp y y = 0" by (rule consistent_refl[OF c])
  have fy: "filter (\<lambda>w. cmp y w = 0) zs = y # filter (\<lambda>w. cmp y w = 0) ys'"
    using Cons.prems(3)[of y] yy by simp
  then obtain z zs' where zs: "zs = z # zs'" by (cases zs) auto
  have zz: "cmp z z = 0" by (rule consistent_refl[OF c])
  have "y \<in> set (filter (\<lambda>w. cmp y w = 0) zs)" using fy by simp
  then have "y \<in> set zs" by simp
  then have zy: "cmp z y \<le> 0" using Cons.prems(2) zs yy zz by auto
  have "z \<in> set (filter (\<lambda>w. cmp z w = 0) zs)" using zs zz by simp
  then have "z \<in> set (filter (\<lambda>w. cmp z w = 0) (y # ys'))" using Cons.prems(3)[of z] by simp
  then have "z \<in> set (y # ys')" by (auto split: if_splits)
  then have yz: "cmp y z \<le> 0" using Cons.prems(1) yy by auto
  have "cmp y z = 0"
    using zy yz consistent_flip[OF c, of y z] by simp
  then have "z = y" using fy zs by simp
  have tails: "filter (\<lambda>w. cmp k w = 0) ys' = filter (\<lambda>w. cmp k w = 0) zs'" for k
    using Cons.prems(3)[of k] zs \<open>z = y\<close> by (cases "cmp k y = 0") simp_all
  have "ys' = zs'"
    using Cons.prems(1,2) zs tails by (intro Cons.IH) simp_all
  with zs \<open>z = y\<close> show ?case by simp
qed

lemma array_sort_unique:
  assumes "consistent cmp"
    and "sorted_wrt (\<lambda>a b. cmp a b \<le> 0) ys"
    and "\<And>k. filter (\<lambda>w. cmp k w = 0) ys = filter (\<lambda>w. cmp k w = 0) xs"
  shows "ys = array_sort cmp xs"
  using assms(2) sorted_array_sort[OF assms(1)]
  by (rule sorted_stable_unique[OF assms(1)]) (simp add: assms(3) stable_array_sort[OF assms(1)])









section \<open>More on the sort\<close>

lemma insert_sorted_cong:
  "(\<And>y. y \<in> set ys \<Longrightarrow> cmp x y = cmp' x y) \<Longrightarrow> insert_sorted cmp x ys = insert_sorted cmp' x ys"
  by (induction ys) auto

lemma set_array_sort: "set (array_sort cmp xs) = set xs"
  using mset_array_sort[of cmp xs] by (metis set_mset_mset)

lemma array_sort_cong:
  "(\<And>a b. a \<in> set xs \<Longrightarrow> b \<in> set xs \<Longrightarrow> cmp a b = cmp' a b) \<Longrightarrow> array_sort cmp xs = array_sort cmp' xs"
proof (induction xs)
  case Nil then show ?case by simp
next
  case (Cons x xs)
  have "array_sort cmp xs = array_sort cmp' xs" using Cons by simp
  moreover have "insert_sorted cmp x (array_sort cmp' xs) = insert_sorted cmp' x (array_sort cmp' xs)"
    by (rule insert_sorted_cong) (use Cons.prems in \<open>simp add: set_array_sort\<close>)
  ultimately show ?case by simp
qed

lemma array_sort_all_le:
  "(\<And>a b. a \<in> set xs \<Longrightarrow> b \<in> set xs \<Longrightarrow> cmp a b \<le> 0) \<Longrightarrow> array_sort cmp xs = xs"
proof (induction xs)
  case Nil then show ?case by simp
next
  case (Cons x xs)
  have "array_sort cmp xs = xs" using Cons by simp
  moreover have "insert_sorted cmp x xs = x # xs"
    using Cons.prems by (cases xs) simp_all
  ultimately show ?case by simp
qed

section \<open>The comparator of applyMultiSort\<close>

lemma sort_value_same_kind:
  "(\<exists>s t. sort_value a f = Str s \<and> sort_value b f = Str t)
   \<or> (\<exists>m n. sort_value a f = Num m \<and> sort_value b f = Num n)
   \<or> (sort_value a f = Undefined \<and> sort_value b f = Undefined)"
  by (simp add: sort_value_def get_prop_def split: option.splits)




section \<open>The comparison of the fields is consistent\<close>

lemma sortable_on_repair: "sortable_on (repair r) f"
  by (simp add: sortable_on_def repair_def without_invalid_def)







section \<open>The criteria in priority order\<close>






section \<open>applyMultiSort on clients the criteria can order\<close>

lemma applyMultiSort_mset: "mset (applyMultiSort lc R C) = mset R"
  by (simp add: applyMultiSort_def mset_array_sort)







section \<open>Criteria that compare every pair equal\<close>

lemma compareClients_skip:
  assumes "criterion_comparison lc (field c) a b = Fin 0"
  shows "compareClients lc (C1 @ c # C2) a b = compareClients lc (C1 @ C2) a b"
  using assms by (induction C1) (simp_all add: Let_def)

lemma criterion_comparison_no_prop:
  assumes "\<not> has_prop a f" "\<not> has_prop b f"
  shows "criterion_comparison lc f a b = Fin 0"
  using assms
  by (auto simp: criterion_comparison_def sort_value_def get_prop_def has_prop_def get_date_def)

lemma sort_value_no_prop:
  "\<not> has_prop a f \<Longrightarrow> f \<noteq> ''createdAt'' \<Longrightarrow> f \<noteq> ''updatedAt'' \<Longrightarrow> sort_value a f = Undefined"
  by (simp add: sort_value_def get_prop_def has_prop_def)

lemma applyMultiSort_skip:
  assumes "\<And>a b. a \<in> set R \<Longrightarrow> b \<in> set R \<Longrightarrow> criterion_comparison lc (field c) a b = Fin 0"
  shows "applyMultiSort lc R (C1 @ c # C2) = applyMultiSort lc R (C1 @ C2)"
proof -
  have eq: "array_sort (\<lambda>a b. sort_order (compareClients lc (C1 @ c # C2) a b)) R
          = array_sort (\<lambda>a b. sort_order (compareClients lc (C1 @ C2) a b)) R"
    by (rule array_sort_cong) (simp add: compareClients_skip assms)
  show ?thesis
  proof (cases "C1 @ C2 = []")
    case True
    then have "array_sort (\<lambda>a b. sort_order (compareClients lc (C1 @ C2) a b)) R = R"
      by (intro array_sort_all_le) simp
    with eq True show ?thesis by (simp add: applyMultiSort_def)
  next
    case False
    with eq show ?thesis by (auto simp: applyMultiSort_def)
  qed
qed

lemma criterion_comparison_unknown_key:
  "f \<notin> set client_keys \<Longrightarrow> criterion_comparison lc f a b = Fin 0"
  by (simp add: criterion_comparison_def sort_value_def get_prop_def client_keys_def)

lemma compareClients_filter_keys:
  "compareClients lc (filter (\<lambda>c. field c \<in> set client_keys) C) a b = compareClients lc C a b"
  by (induction C) (simp_all add: Let_def criterion_comparison_unknown_key)

lemma applyMultiSort_filter_keys:
  "applyMultiSort lc R (filter (\<lambda>c. field c \<in> set client_keys) C) = applyMultiSort lc R C"
proof -
  let ?F = "filter (\<lambda>c. field c \<in> set client_keys) C"
  have eq: "array_sort (\<lambda>a b. sort_order (compareClients lc ?F a b)) R
          = array_sort (\<lambda>a b. sort_order (compareClients lc C a b)) R"
    by (rule array_sort_cong) (simp add: compareClients_filter_keys)
  show ?thesis
  proof (cases "?F = []")
    case True
    have "\<And>a b. compareClients lc C a b = Fin 0"
      using compareClients_filter_keys[of lc C] True by simp
    then have "array_sort (\<lambda>a b. sort_order (compareClients lc C a b)) R = R"
      by (intro array_sort_all_le) simp
    with True show ?thesis by (simp add: applyMultiSort_def)
  next
    case False
    then have "C \<noteq> []" by auto
    with False eq show ?thesis by (simp add: applyMultiSort_def)
  qed
qed

text \<open>
  C10. \<open>applyMultiSort\<close> is total over arbitrary field identifiers: every call
  returns, and the result is a permutation of the input. A client without the property
  yields \<open>undefined\<close>, two \<open>undefined\<close> values compare equal in the fallback branch,
  so a criterion whose field no client of the list has compares every pair equal, and
  dropping it from the criteria leaves the result unchanged.
\<close>

theorem applyMultiSort_total:
  "applyMultiSort_outcome lc R C = Inr (applyMultiSort lc R C)
   \<and> mset (applyMultiSort lc R C) = mset R
   \<and> (\<not> has_prop a f \<and> f \<noteq> ''createdAt'' \<and> f \<noteq> ''updatedAt'' \<longrightarrow> sort_value a f = Undefined)
   \<and> comparison lc Undefined Undefined = Fin 0
   \<and> (\<not> has_prop a f \<and> \<not> has_prop b f \<longrightarrow> criterion_comparison lc f a b = Fin 0)
   \<and> ((\<forall>r\<in>set R. \<not> has_prop r (field c)) \<longrightarrow>
        applyMultiSort lc R (C1 @ c # C2) = applyMultiSort lc R (C1 @ C2))"
proof (intro conjI impI)
  show "applyMultiSort_outcome lc R C = Inr (applyMultiSort lc R C)"
    by (simp add: applyMultiSort_outcome_def)
  show "mset (applyMultiSort lc R C) = mset R" by (rule applyMultiSort_mset)
  show "comparison lc Undefined Undefined = Fin 0" by simp
next
  assume "\<not> has_prop a f \<and> f \<noteq> ''createdAt'' \<and> f \<noteq> ''updatedAt''"
  then show "sort_value a f = Undefined" by (simp add: sort_value_no_prop)
next
  assume "\<not> has_prop a f \<and> \<not> has_prop b f"
  then show "criterion_comparison lc f a b = Fin 0" by (simp add: criterion_comparison_no_prop)
next
  assume "\<forall>r\<in>set R. \<not> has_prop r (field c)"
  then show "applyMultiSort lc R (C1 @ c # C2) = applyMultiSort lc R (C1 @ C2)"
    by (intro applyMultiSort_skip criterion_comparison_no_prop) auto
qed

theorem applyMultiSort_total_witness:
  "list_all (\<lambda>r. \<not> has_prop r ''phone'') [bob, amy, amy2]
   \<and> sort_value bob ''phone'' = Undefined
   \<and> criterion_comparison code_unit_compare ''phone'' bob amy = Fin 0
   \<and> applyMultiSort code_unit_compare [bob, amy, amy2]
        ([\<lparr>id_crit = ''sort-1-name'', field = ''name'', direction = Asc\<rparr>]
          @ \<lparr>id_crit = ''sort-2-phone'', field = ''phone'', direction = Desc\<rparr> # [])
      = applyMultiSort code_unit_compare [bob, amy, amy2]
        ([\<lparr>id_crit = ''sort-1-name'', field = ''name'', direction = Asc\<rparr>] @ [])
   \<and> applyMultiSort code_unit_compare [bob, amy, amy2]
        [\<lparr>id_crit = ''sort-1-name'', field = ''name'', direction = Asc\<rparr>,
         \<lparr>id_crit = ''sort-2-phone'', field = ''phone'', direction = Desc\<rparr>] = [amy, amy2, bob]"
proof -
  have p: "\<not> has_prop bob ''phone''" "\<not> has_prop amy ''phone''" "\<not> has_prop amy2 ''phone''"
    by (simp_all add: has_prop_def)
  have v: "applyMultiSort code_unit_compare [bob, amy, amy2]
        [\<lparr>id_crit = ''sort-1-name'', field = ''name'', direction = Asc\<rparr>,
         \<lparr>id_crit = ''sort-2-phone'', field = ''phone'', direction = Desc\<rparr>] = [amy, amy2, bob]"
    by code_simp
  from applyMultiSort_total[of code_unit_compare "[bob, amy, amy2]" "[]" bob "''phone''" amy
      "\<lparr>id_crit = ''sort-2-phone'', field = ''phone'', direction = Desc\<rparr>"
      "[\<lparr>id_crit = ''sort-1-name'', field = ''name'', direction = Asc\<rparr>]" "[]"] p v
  show ?thesis by simp
qed

text \<open>
  C2, as amended. \<open>applyMultiSort\<close> never fails with \<open>InvalidFieldKind\<close> or
  \<open>UnknownField\<close>: it does not consult \<open>clientFields\<close>. Every call returns, and the
  result is the one for the criteria that name a key of the client type; a criterion
  naming any other field is skipped silently.
\<close>

theorem applyMultiSort_never_fails:
  "applyMultiSort_outcome lc R C = Inr (applyMultiSort lc R (filter (\<lambda>c. field c \<in> set client_keys) C))"
  by (simp add: applyMultiSort_outcome_def applyMultiSort_filter_keys)

theorem applyMultiSort_never_fails_witness:
  "applyMultiSort_outcome code_unit_compare [bob, amy, amy2]
     [\<lparr>id_crit = ''sort-1-phone'', field = ''phone'', direction = Desc\<rparr>,
      \<lparr>id_crit = ''sort-2-name'', field = ''name'', direction = Asc\<rparr>]
   = Inr (applyMultiSort code_unit_compare [bob, amy, amy2]
            [\<lparr>id_crit = ''sort-2-name'', field = ''name'', direction = Asc\<rparr>])
   \<and> applyMultiSort code_unit_compare [bob, amy, amy2]
            [\<lparr>id_crit = ''sort-2-name'', field = ''name'', direction = Asc\<rparr>] = [amy, amy2, bob]"
proof -
  have f: "filter (\<lambda>c. field c \<in> set client_keys)
             [\<lparr>id_crit = ''sort-1-phone'', field = ''phone'', direction = Desc\<rparr>,
              \<lparr>id_crit = ''sort-2-name'', field = ''name'', direction = Asc\<rparr>]
           = [\<lparr>id_crit = ''sort-2-name'', field = ''name'', direction = Asc\<rparr>]"
    by (simp add: client_keys_def)
  have v: "applyMultiSort code_unit_compare [bob, amy, amy2]
            [\<lparr>id_crit = ''sort-2-name'', field = ''name'', direction = Asc\<rparr>] = [amy, amy2, bob]"
    by code_simp
  from applyMultiSort_never_fails[of code_unit_compare "[bob, amy, amy2]"
      "[\<lparr>id_crit = ''sort-1-phone'', field = ''phone'', direction = Desc\<rparr>,
        \<lparr>id_crit = ''sort-2-name'', field = ''name'', direction = Asc\<rparr>]"] f v
  show ?thesis by simp
qed

text \<open>
  C2 as stated fails: \<open>bogus\<close> has no descriptor, and the call returns the clients
  instead of failing with \<open>UnknownField\<close>.
\<close>

theorem unknown_field_counterexample:
  "''bogus'' \<notin> set (map id_field clientFields)
   \<and> applyMultiSort_outcome code_unit_compare [bob, amy]
        [\<lparr>id_crit = ''sort-1-bogus'', field = ''bogus'', direction = Asc\<rparr>] = Inr [bob, amy]"
  by code_simp

text \<open>
  C4. A missing date is compared as the time value \<open>0\<close>, the epoch, which is not the
  earliest time: in ascending order a client created before 1970 precedes a client with
  no creation date.
\<close>

theorem missing_date_after_early_date:
  "applyMultiSort code_unit_compare [undated, early]
     [\<lparr>id_crit = ''sort-1-createdAt'', field = ''createdAt'', direction = Asc\<rparr>] = [early, undated]"
  by code_simp

lemma missing_date_first:
  assumes "get_date a f = None" "get_date b f = Some (Time t)" "0 < t" "f = ''createdAt'' \<or> f = ''updatedAt''"
  shows "sort_order (criterion_comparison lc f a b) < 0"
  using assms by (auto simp: criterion_comparison_def sort_value_def)

section \<open>applyMultiSort on the heap\<close>

lemma spread_fresh:
  assumes "a < length (arrays h)"
  shows "snd (spread h a) = length (arrays h)"
    and "arrays (fst (spread h a)) ! snd (spread h a) = arrays h ! a"
    and "b < length (arrays h) \<Longrightarrow> arrays (fst (spread h a)) ! b = arrays h ! b"
    and "objects (fst (spread h a)) = objects h"
    and "length (arrays (fst (spread h a))) = Suc (length (arrays h))"
  using assms by (simp_all add: spread_def nth_append)

lemma applyMultiSort_heap_refines:
  assumes "clients < length (arrays h)"
  shows "contents (fst (applyMultiSort_heap lc h clients criteria)) (snd (applyMultiSort_heap lc h clients criteria))
           = applyMultiSort lc (contents h clients) criteria
       \<and> contents (fst (applyMultiSort_heap lc h clients criteria)) clients = contents h clients
       \<and> snd (applyMultiSort_heap lc h clients criteria) \<noteq> clients"
proof (cases "criteria = []")
  case True
  then show ?thesis using assms
    by (simp add: applyMultiSort_heap_def applyMultiSort_def contents_def spread_def nth_append)
next
  case False
  let ?cmp = "\<lambda>a b. sort_order (compareClients lc criteria a b)"
  have m: "map (\<lambda>r. objects h ! r) (array_sort (\<lambda>x y. ?cmp (objects h ! x) (objects h ! y)) (arrays h ! clients))
        = array_sort ?cmp (map (\<lambda>r. objects h ! r) (arrays h ! clients))"
    by (rule array_sort_map)
  show ?thesis using False assms m
    by (simp add: applyMultiSort_heap_def applyMultiSort_def contents_def spread_def sort_in_place_def nth_append)
qed

text \<open>
  C6. With no criteria, \<open>applyMultiSort\<close> returns a new array: its reference differs from
  the argument's and from every array of the heap before the call, it holds the same client
  references in the same order, and the arrays and clients that existed before the call
  are unchanged.
\<close>

theorem applyMultiSort_heap_no_criteria:
  assumes "clients < length (arrays h)"
  shows "snd (applyMultiSort_heap lc h clients []) \<noteq> clients
       \<and> \<not> snd (applyMultiSort_heap lc h clients []) < length (arrays h)
       \<and> snd (applyMultiSort_heap lc h clients []) < length (arrays (fst (applyMultiSort_heap lc h clients [])))
       \<and> arrays (fst (applyMultiSort_heap lc h clients [])) ! snd (applyMultiSort_heap lc h clients []) = arrays h ! clients
       \<and> contents (fst (applyMultiSort_heap lc h clients [])) (snd (applyMultiSort_heap lc h clients [])) = contents h clients
       \<and> take (length (arrays h)) (arrays (fst (applyMultiSort_heap lc h clients []))) = arrays h
       \<and> objects (fst (applyMultiSort_heap lc h clients [])) = objects h
       \<and> applyMultiSort lc (contents h clients) [] = contents h clients"
  using assms
  by (simp add: applyMultiSort_heap_def applyMultiSort_def contents_def spread_def nth_append)

theorem applyMultiSort_heap_no_criteria_witness:
  "(0::nat) < length (arrays sample_heap)
   \<and> applyMultiSort_heap code_unit_compare sample_heap 0 [] = (\<lparr>objects = [bob, amy, amy2], arrays = [[0, 1, 2], [0, 1, 2]]\<rparr>, 1)
   \<and> snd (applyMultiSort_heap code_unit_compare sample_heap 0 []) \<noteq> 0
   \<and> contents (fst (applyMultiSort_heap code_unit_compare sample_heap 0 [])) (snd (applyMultiSort_heap code_unit_compare sample_heap 0 []))
       = contents sample_heap 0
   \<and> take (length (arrays sample_heap)) (arrays (fst (applyMultiSort_heap code_unit_compare sample_heap 0 []))) = arrays sample_heap"
proof -
  have h: "(0::nat) < length (arrays sample_heap)" by (simp add: sample_heap_def)
  have v: "applyMultiSort_heap code_unit_compare sample_heap 0 [] = (\<lparr>objects = [bob, amy, amy2], arrays = [[0, 1, 2], [0, 1, 2]]\<rparr>, 1)"
    by (simp add: applyMultiSort_heap_def spread_def sample_heap_def)
  from applyMultiSort_heap_no_criteria[OF h, of code_unit_compare] h v show ?thesis by blast
qed

section \<open>Direction\<close>









lemma criteria_comparison_single_asc:
  "criteria_comparison lc [\<lparr>id_crit = i, field = f, direction = Asc\<rparr>] a b = field_comparison lc f a b"
  by simp

lemma criteria_comparison_single_desc:
  "criteria_comparison lc [\<lparr>id_crit = i, field = f, direction = Desc\<rparr>] a b = - field_comparison lc f a b"
  by simp







section \<open>Adding a criterion\<close>

lemma handleAddField_present:
  "f \<in> set (map field cs) \<Longrightarrow> handleAddField now f cs = cs"
  by (auto simp: handleAddField_def list_ex_iff)

lemma handleAddField_new:
  "f \<noteq> [] \<Longrightarrow> f \<notin> set (map field cs) \<Longrightarrow>
   handleAddField now f cs = cs @ [\<lparr>id_crit = new_id now f, field = f, direction = Asc\<rparr>]"
  by (auto simp: handleAddField_def list_ex_iff)

lemma handleAddField_distinct:
  "distinct (map field cs) \<Longrightarrow> distinct (map field (handleAddField now f cs))"
  by (auto simp: handleAddField_def list_ex_iff)

lemma add_sequence_distinct:
  "distinct (map field cs) \<Longrightarrow>
   distinct (map field (foldl (\<lambda>cs p. handleAddField (fst p) (snd p) cs) cs adds))"
  by (induction adds arbitrary: cs) (simp_all add: handleAddField_distinct)

lemma show_nat_digits: "set (show_nat n) \<subseteq> set ''0123456789''"
proof (induction n rule: show_nat.induct)
  case (1 n)
  have d: "\<And>k. k < 10 \<Longrightarrow> ''0123456789'' ! k \<in> set ''0123456789''"
    by (rule nth_mem) simp
  show ?case
  proof (cases "n < 10")
    case True
    then show ?thesis using d[of n] by (subst show_nat.simps) simp
  next
    case False
    have "n mod 10 < 10" by simp
    then have "''0123456789'' ! (n mod 10) \<in> set ''0123456789''" by (rule d)
    with False 1 show ?thesis by (subst show_nat.simps) simp
  qed
qed

lemma show_nat_no_dash: "CHR ''-'' \<notin> set (show_nat n)"
  using show_nat_digits[of n] by auto

lemma takeWhile_until:
  "d \<notin> set xs \<Longrightarrow> takeWhile (\<lambda>c. c \<noteq> d) (xs @ d # ys) = xs"
  by (induction xs) auto

lemma dropWhile_until:
  "d \<notin> set xs \<Longrightarrow> dropWhile (\<lambda>c. c \<noteq> d) (xs @ d # ys) = d # ys"
  by (induction xs) auto

lemma new_id_field:
  assumes "new_id t f = new_id t' f'" shows "f = f'"
proof -
  from assms have "show_nat t @ CHR ''-'' # f = show_nat t' @ CHR ''-'' # f'"
    by (simp add: new_id_def)
  then have "dropWhile (\<lambda>c. c \<noteq> CHR ''-'') (show_nat t @ CHR ''-'' # f)
           = dropWhile (\<lambda>c. c \<noteq> CHR ''-'') (show_nat t' @ CHR ''-'' # f')" by simp
  then show ?thesis
    by (simp only: dropWhile_until[OF show_nat_no_dash]) simp
qed

lemma new_id_fresh:
  assumes "generated cs" "f \<notin> set (map field cs)"
  shows "new_id now f \<notin> set (map id_crit cs)"
proof
  assume "new_id now f \<in> set (map id_crit cs)"
  then obtain c where c: "c \<in> set cs" "id_crit c = new_id now f" by auto
  with assms(1) obtain t where "id_crit c = new_id t (field c)" unfolding generated_def by blast
  with c have "f = field c" using new_id_field by metis
  with c assms(2) show False by auto
qed

lemma handleAddField_generated: "generated cs \<Longrightarrow> generated (handleAddField now f cs)"
  unfolding generated_def handleAddField_def by auto

text \<open>
  C7. Starting from criteria with pairwise different fields, any sequence of additions
  leaves the fields pairwise different. Adding a field that is present returns the
  criteria unchanged. Adding a non-empty field that is absent appends one criterion for it,
  ascending, with the identity generated from the time and the field, and changes nothing
  else; that identity differs from every identity generated for another field.
\<close>

theorem add_keeps_fields_unique:
  "(distinct (map field cs) \<longrightarrow>
      distinct (map field (foldl (\<lambda>cs p. handleAddField (fst p) (snd p) cs) cs adds)))
   \<and> (f \<in> set (map field cs) \<longrightarrow> handleAddField now f cs = cs)
   \<and> (f \<noteq> [] \<and> f \<notin> set (map field cs) \<longrightarrow>
        handleAddField now f cs = cs @ [\<lparr>id_crit = new_id now f, field = f, direction = Asc\<rparr>])
   \<and> (generated cs \<and> f \<notin> set (map field cs) \<longrightarrow> new_id now f \<notin> set (map id_crit cs))"
  using add_sequence_distinct handleAddField_present handleAddField_new new_id_fresh by blast

theorem add_keeps_fields_unique_witness:
  "distinct (map field by_name_then_newest)
   \<and> distinct (map field (foldl (\<lambda>cs p. handleAddField (fst p) (snd p) cs) by_name_then_newest
        [(3, ''email''), (4, ''name'')]))
   \<and> ''name'' \<in> set (map field by_name_then_newest)
   \<and> handleAddField 4 ''name'' by_name_then_newest = by_name_then_newest
   \<and> ''email'' \<noteq> [] \<and> ''email'' \<notin> set (map field by_name_then_newest)
   \<and> handleAddField 3 ''email'' by_name_then_newest
       = by_name_then_newest @ [\<lparr>id_crit = ''sort-3-email'', field = ''email'', direction = Asc\<rparr>]
   \<and> generated by_name_then_newest
   \<and> ''sort-3-email'' \<notin> set (map id_crit by_name_then_newest)"
proof -
  have d: "distinct (map field by_name_then_newest)" by (simp add: by_name_then_newest_def)
  have n: "''name'' \<in> set (map field by_name_then_newest)" by (simp add: by_name_then_newest_def)
  have e: "''email'' \<noteq> [] \<and> ''email'' \<notin> set (map field by_name_then_newest)"
    by (simp add: by_name_then_newest_def)
  have i: "new_id 3 ''email'' = ''sort-3-email''" by (simp add: new_id_def show_nat.simps)
  have "new_id 1 ''name'' = ''sort-1-name''" "new_id 2 ''createdAt'' = ''sort-2-createdAt''"
    by (simp_all add: new_id_def show_nat.simps)
  then have g: "generated by_name_then_newest"
    unfolding generated_def by_name_then_newest_def
    by (intro ballI) (auto intro: exI[of _ 1] exI[of _ 2])
  note t1 = add_keeps_fields_unique[of by_name_then_newest "[(3, ''email''), (4, ''name'')]" "''name''" 4]
  note t2 = add_keeps_fields_unique[of by_name_then_newest "[]" "''email''" 3]
  have 1: "distinct (map field (foldl (\<lambda>cs p. handleAddField (fst p) (snd p) cs) by_name_then_newest
        [(3, ''email''), (4, ''name'')]))"
    using t1[THEN conjunct1] d by (rule mp)
  have 2: "handleAddField 4 ''name'' by_name_then_newest = by_name_then_newest"
    using t1[THEN conjunct2, THEN conjunct1] n by (rule mp)
  have 3: "handleAddField 3 ''email'' by_name_then_newest
       = by_name_then_newest @ [\<lparr>id_crit = new_id 3 ''email'', field = ''email'', direction = Asc\<rparr>]"
    using t2[THEN conjunct2, THEN conjunct2, THEN conjunct1] e by (rule mp)
  have 4: "new_id 3 ''email'' \<notin> set (map id_crit by_name_then_newest)"
    using t2[THEN conjunct2, THEN conjunct2, THEN conjunct2] g e by blast
  show ?thesis
    using d 1 n 2 e 3[unfolded i] g 4[unfolded i] by (intro conjI) simp_all
qed

section \<open>Reordering\<close>

lemma findIndex_Some:
  "findIndex P xs = Some i \<Longrightarrow> i < length xs \<and> P (xs ! i) \<and> (\<forall>j<i. \<not> P (xs ! j))"
proof (induction xs arbitrary: i)
  case Nil then show ?case by simp
next
  case (Cons x xs)
  show ?case
  proof (cases "P x")
    case True with Cons.prems show ?thesis by simp
  next
    case False
    with Cons.prems obtain k where k: "findIndex P xs = Some k" "i = Suc k" by auto
    from Cons.IH[OF k(1)] False k(2) show ?thesis by (auto simp: less_Suc_eq_0_disj)
  qed
qed

lemma findIndex_None: "findIndex P xs = None \<longleftrightarrow> (\<forall>x\<in>set xs. \<not> P x)"
  by (induction xs) auto

lemma findIndex_distinct:
  "distinct (map k xs) \<Longrightarrow> i < length xs \<Longrightarrow> findIndex (\<lambda>x. k x = k (xs ! i)) xs = Some i"
proof (induction xs arbitrary: i)
  case Nil then show ?case by simp
next
  case (Cons x xs)
  show ?case
  proof (cases i)
    case 0 then show ?thesis by simp
  next
    case (Suc j)
    with Cons.prems have "k x \<noteq> k (xs ! j)" by auto
    moreover have "findIndex (\<lambda>x. k x = k (xs ! j)) xs = Some j" using Cons Suc by simp
    ultimately show ?thesis using Suc by simp
  qed
qed

lemma mset_splice_remove:
  "i < length xs \<Longrightarrow> add_mset (xs ! i) (mset (splice_remove i xs)) = mset xs"
proof -
  assume i: "i < length xs"
  then have "xs = take i xs @ xs ! i # drop (Suc i) xs" by (simp add: id_take_nth_drop)
  then have "mset xs = mset (take i xs @ xs ! i # drop (Suc i) xs)" by simp
  then show ?thesis by (simp add: splice_remove_def)
qed

lemma mset_splice_insert: "mset (splice_insert j x ys) = add_mset x (mset ys)"
proof -
  have "mset ys = mset (take j ys @ drop j ys)" by simp
  then show ?thesis unfolding splice_insert_def by (simp del: append_take_drop_id)
qed

lemma length_splice_remove: "i < length xs \<Longrightarrow> length (splice_remove i xs) = length xs - 1"
  by (auto simp: splice_remove_def)

lemma nth_splice_insert: "j \<le> length ys \<Longrightarrow> splice_insert j x ys ! j = x"
  by (simp add: splice_insert_def nth_append)

lemma splice_remove_insert: "j \<le> length ys \<Longrightarrow> splice_remove j (splice_insert j x ys) = ys"
  by (simp add: splice_remove_def splice_insert_def)

lemma handleDragEnd_moves:
  assumes i: "findIndex (\<lambda>c. id_crit c = a) cs = Some i"
    and j: "findIndex (\<lambda>c. id_crit c = b) cs = Some j"
    and ne: "i \<noteq> j"
  shows "handleDragEnd a (Some b) cs = splice_insert j (cs ! i) (splice_remove i cs)"
    and "length (handleDragEnd a (Some b) cs) = length cs"
    and "handleDragEnd a (Some b) cs ! j = cs ! i"
    and "splice_remove j (handleDragEnd a (Some b) cs) = splice_remove i cs"
proof -
  have "a \<noteq> b" using i j ne by auto
  then show eq: "handleDragEnd a (Some b) cs = splice_insert j (cs ! i) (splice_remove i cs)"
    using i j by (simp add: handleDragEnd_def)
  have il: "i < length cs" and jl: "j < length cs"
    using findIndex_Some[OF i] findIndex_Some[OF j] by simp_all
  then have le: "j \<le> length (splice_remove i cs)" by (simp add: length_splice_remove)
  show "length (handleDragEnd a (Some b) cs) = length cs"
    using il by (simp add: eq splice_insert_def length_splice_remove)
  show "handleDragEnd a (Some b) cs ! j = cs ! i"
    unfolding eq by (rule nth_splice_insert[OF le])
  show "splice_remove j (handleDragEnd a (Some b) cs) = splice_remove i cs"
    unfolding eq by (rule splice_remove_insert[OF le])
qed

lemma handleDragEnd_mset: "mset (handleDragEnd a over cs) = mset cs"
proof (cases "Some a \<noteq> over")
  case False then show ?thesis by (simp add: handleDragEnd_def)
next
  case True
  show ?thesis
  proof (cases "findIndex (\<lambda>c. id_crit c = a) cs")
    case None with True show ?thesis by (simp add: handleDragEnd_def)
  next
    case (Some i)
    then have il: "i < length cs" using findIndex_Some by blast
    show ?thesis
    proof (cases "findIndex (\<lambda>c. Some (id_crit c) = over) cs")
      case None with True Some show ?thesis by (simp add: handleDragEnd_def)
    next
      case j: (Some j)
      with True Some have "handleDragEnd a over cs = splice_insert j (cs ! i) (splice_remove i cs)"
        by (simp add: handleDragEnd_def)
      then show ?thesis using mset_splice_remove[OF il] by (simp add: mset_splice_insert)
    qed
  qed
qed

lemma handleDragEnd_not_found:
  "findIndex (\<lambda>c. id_crit c = a) cs = None \<Longrightarrow> handleDragEnd a over cs = cs"
  by (simp add: handleDragEnd_def)

lemma handleDragEnd_same_position:
  assumes "findIndex (\<lambda>c. id_crit c = a) cs = findIndex (\<lambda>c. Some (id_crit c) = over) cs"
  shows "handleDragEnd a over cs = cs"
proof (cases "findIndex (\<lambda>c. id_crit c = a) cs")
  case None then show ?thesis by (rule handleDragEnd_not_found)
next
  case (Some i)
  from findIndex_Some[OF Some] have "id_crit (cs ! i) = a" by simp
  moreover from Some assms have "findIndex (\<lambda>c. Some (id_crit c) = over) cs = Some i" by simp
  from findIndex_Some[OF this] have "Some (id_crit (cs ! i)) = over" by simp
  ultimately have "Some a = over" by simp
  then show ?thesis by (simp add: handleDragEnd_def)
qed

lemma handleDragEnd_to_index:
  assumes d: "distinct (map id_crit cs)" and i: "i < length cs" and j: "j < length cs"
  shows "handleDragEnd (id_crit (cs ! i)) (Some (id_crit (cs ! j))) cs ! j = cs ! i"
proof (cases "i = j")
  case True then show ?thesis by (simp add: handleDragEnd_def)
next
  case False
  show ?thesis
    by (rule handleDragEnd_moves(3)[OF findIndex_distinct[OF d i] findIndex_distinct[OF d j] False])
qed

text \<open>
  C8. Reordering never changes the multiset of criteria. When the dragged identity is
  found at \<open>i\<close> and the target identity at another position \<open>j\<close>, the criterion
  from \<open>i\<close> stands at \<open>j\<close> afterwards and the other criteria keep their order (removing
  the moved criterion from the result and from the input gives the same list). With
  pairwise different identities every position is such a target. The criteria are returned
  unchanged when the dragged identity matches no criterion, or when the target position is
  the current one.
\<close>

theorem reorder_moves_one:
  "mset (handleDragEnd a over cs) = mset cs
   \<and> (findIndex (\<lambda>c. id_crit c = a) cs = Some i \<and> findIndex (\<lambda>c. id_crit c = b) cs = Some j \<and> i \<noteq> j \<longrightarrow>
        length (handleDragEnd a (Some b) cs) = length cs
        \<and> handleDragEnd a (Some b) cs ! j = cs ! i
        \<and> splice_remove j (handleDragEnd a (Some b) cs) = splice_remove i cs)
   \<and> (distinct (map id_crit cs) \<and> i < length cs \<and> j < length cs \<longrightarrow>
        handleDragEnd (id_crit (cs ! i)) (Some (id_crit (cs ! j))) cs ! j = cs ! i)
   \<and> (findIndex (\<lambda>c. id_crit c = a) cs = None \<longrightarrow> handleDragEnd a over cs = cs)
   \<and> (findIndex (\<lambda>c. id_crit c = a) cs = findIndex (\<lambda>c. Some (id_crit c) = over) cs \<longrightarrow>
        handleDragEnd a over cs = cs)"
proof (intro conjI impI; (elim conjE)?)
  show "mset (handleDragEnd a over cs) = mset cs" by (rule handleDragEnd_mset)
next
  assume h: "findIndex (\<lambda>c. id_crit c = a) cs = Some i" "findIndex (\<lambda>c. id_crit c = b) cs = Some j" "i \<noteq> j"
  show "length (handleDragEnd a (Some b) cs) = length cs" by (rule handleDragEnd_moves(2)[OF h])
  show "handleDragEnd a (Some b) cs ! j = cs ! i" by (rule handleDragEnd_moves(3)[OF h])
  show "splice_remove j (handleDragEnd a (Some b) cs) = splice_remove i cs" by (rule handleDragEnd_moves(4)[OF h])
next
  assume "distinct (map id_crit cs)" "i < length cs" "j < length cs"
  then show "handleDragEnd (id_crit (cs ! i)) (Some (id_crit (cs ! j))) cs ! j = cs ! i"
    by (rule handleDragEnd_to_index)
next
  assume "findIndex (\<lambda>c. id_crit c = a) cs = None"
  then show "handleDragEnd a over cs = cs" by (rule handleDragEnd_not_found)
next
  assume "findIndex (\<lambda>c. id_crit c = a) cs = findIndex (\<lambda>c. Some (id_crit c) = over) cs"
  then show "handleDragEnd a over cs = cs" by (rule handleDragEnd_same_position)
qed

theorem reorder_moves_one_witness:
  "findIndex (\<lambda>c. id_crit c = ''sort-1-name'') by_name_then_newest = Some 0
   \<and> findIndex (\<lambda>c. id_crit c = ''sort-2-createdAt'') by_name_then_newest = Some 1
   \<and> handleDragEnd ''sort-1-name'' (Some ''sort-2-createdAt'') by_name_then_newest
       = [\<lparr>id_crit = ''sort-2-createdAt'', field = ''createdAt'', direction = Desc\<rparr>,
          \<lparr>id_crit = ''sort-1-name'', field = ''name'', direction = Asc\<rparr>]
   \<and> mset (handleDragEnd ''sort-1-name'' (Some ''sort-2-createdAt'') by_name_then_newest) = mset by_name_then_newest
   \<and> handleDragEnd ''sort-1-name'' (Some ''sort-2-createdAt'') by_name_then_newest ! 1 = by_name_then_newest ! 0
   \<and> splice_remove 1 (handleDragEnd ''sort-1-name'' (Some ''sort-2-createdAt'') by_name_then_newest)
       = splice_remove 0 by_name_then_newest
   \<and> findIndex (\<lambda>c. id_crit c = ''sort-9-status'') by_name_then_newest = None
   \<and> handleDragEnd ''sort-9-status'' (Some ''sort-1-name'') by_name_then_newest = by_name_then_newest
   \<and> handleDragEnd ''sort-1-name'' (Some ''sort-1-name'') by_name_then_newest = by_name_then_newest"
proof -
  have i: "findIndex (\<lambda>c. id_crit c = ''sort-1-name'') by_name_then_newest = Some 0"
    by (simp add: by_name_then_newest_def)
  have j: "findIndex (\<lambda>c. id_crit c = ''sort-2-createdAt'') by_name_then_newest = Some 1"
    by (simp add: by_name_then_newest_def)
  have k: "findIndex (\<lambda>c. id_crit c = ''sort-9-status'') by_name_then_newest = None"
    by (simp add: by_name_then_newest_def)
  have s: "findIndex (\<lambda>c. id_crit c = ''sort-1-name'') by_name_then_newest
         = findIndex (\<lambda>c. Some (id_crit c) = Some ''sort-1-name'') by_name_then_newest"
    by simp
  have v: "handleDragEnd ''sort-1-name'' (Some ''sort-2-createdAt'') by_name_then_newest
       = [\<lparr>id_crit = ''sort-2-createdAt'', field = ''createdAt'', direction = Desc\<rparr>,
          \<lparr>id_crit = ''sort-1-name'', field = ''name'', direction = Asc\<rparr>]"
    by (simp add: handleDragEnd_def by_name_then_newest_def splice_insert_def splice_remove_def)
  note t1 = reorder_moves_one[of "''sort-1-name''" "Some ''sort-2-createdAt''" by_name_then_newest 0 "''sort-2-createdAt''" 1]
  note t2 = reorder_moves_one[of "''sort-9-status''" "Some ''sort-1-name''" by_name_then_newest 0 "''sort-1-name''" 0]
  note t3 = reorder_moves_one[of "''sort-1-name''" "Some ''sort-1-name''" by_name_then_newest 0 "''sort-1-name''" 0]
  have 1: "mset (handleDragEnd ''sort-1-name'' (Some ''sort-2-createdAt'') by_name_then_newest) = mset by_name_then_newest"
    by (rule t1[THEN conjunct1])
  have 2: "length (handleDragEnd ''sort-1-name'' (Some ''sort-2-createdAt'') by_name_then_newest) = length by_name_then_newest
        \<and> handleDragEnd ''sort-1-name'' (Some ''sort-2-createdAt'') by_name_then_newest ! 1 = by_name_then_newest ! 0
        \<and> splice_remove 1 (handleDragEnd ''sort-1-name'' (Some ''sort-2-createdAt'') by_name_then_newest)
            = splice_remove 0 by_name_then_newest"
    using t1[THEN conjunct2, THEN conjunct1] i j by simp
  have 3: "handleDragEnd ''sort-9-status'' (Some ''sort-1-name'') by_name_then_newest = by_name_then_newest"
    using t2[THEN conjunct2, THEN conjunct2, THEN conjunct2, THEN conjunct1] k by (rule mp)
  have 4: "handleDragEnd ''sort-1-name'' (Some ''sort-1-name'') by_name_then_newest = by_name_then_newest"
    using t3[THEN conjunct2, THEN conjunct2, THEN conjunct2, THEN conjunct2] s by (rule mp)
  show ?thesis using i j v 1 2 k 3 4 by (intro conjI) (simp_all only: simp_thms)
qed

section \<open>What every reachable sequence satisfies\<close>

lemma generated_distinct_ids:
  assumes "generated cs" "distinct (map field cs)"
  shows "distinct (map id_crit cs)"
  using assms
proof (induction cs)
  case Nil then show ?case by simp
next
  case (Cons c cs)
  from Cons.prems have g: "generated cs" and d: "distinct (map field cs)"
    and f: "field c \<notin> set (map field cs)" and t: "\<exists>t. id_crit c = new_id t (field c)"
    by (auto simp: generated_def)
  from t obtain t where "id_crit c = new_id t (field c)" ..
  then have "id_crit c \<notin> set (map id_crit cs)" using new_id_fresh[OF g f] by simp
  with Cons.IH[OF g d] show ?case by simp
qed

lemma reachable_invariant:
  "reachable cs \<Longrightarrow> generated cs \<and> distinct (map field cs)"
proof (induction rule: reachable.induct)
  case initial then show ?case by (simp add: generated_def)
next
  case (add cs now f)
  then show ?case by (simp add: handleAddField_generated handleAddField_distinct)
next
  case (remove cs i)
  then show ?case by (auto simp: handleRemoveCriterion_def generated_def distinct_map_filter)
next
  case (toggle cs i)
  have "map field (handleToggleDirection i cs) = map field cs"
    by (simp add: handleToggleDirection_def comp_def)
  moreover have "generated (handleToggleDirection i cs)"
    using toggle.IH by (auto simp: generated_def handleToggleDirection_def)
  ultimately show ?case using toggle.IH by simp
next
  case (reorder cs active over)
  have m: "mset (handleDragEnd active over cs) = mset cs" by (rule handleDragEnd_mset)
  then have "set (handleDragEnd active over cs) = set cs" by (metis mset_eq_setD)
  then have "generated (handleDragEnd active over cs)" using reorder.IH by (simp add: generated_def)
  moreover have "mset (map field (handleDragEnd active over cs)) = mset (map field cs)"
    using m by (metis mset_map)
  then have "distinct (map field (handleDragEnd active over cs))"
    using reorder.IH by (metis mset_eq_imp_distinct_iff)
  ultimately show ?case by simp
qed

lemma reachable_distinct_ids: "reachable cs \<Longrightarrow> distinct (map id_crit cs)"
  using reachable_invariant generated_distinct_ids by blast

section \<open>Restoring the criteria\<close>

lemma valid_element_truthy:
  "valid_element c = Some True \<longleftrightarrow> has_truthy_props c"
  by (cases c) (auto simp: has_truthy_props_def)

lemma every_valid_all:
  "every_valid cs = Some True \<longleftrightarrow> list_all has_truthy_props cs"
proof (induction cs)
  case Nil then show ?case by simp
next
  case (Cons c cs)
  show ?case
  proof (cases "valid_element c")
    case None
    then have "\<not> has_truthy_props c" using valid_element_truthy[of c] by simp
    with None show ?thesis by simp
  next
    case (Some b)
    then show ?thesis using Cons valid_element_truthy[of c] by (cases b) auto
  qed
qed

lemma load_restored:
  "restored (load item) =
     (case item of
        Some (Wellformed (JArr cs)) \<Rightarrow> if list_all has_truthy_props cs then cs else []
      | _ \<Rightarrow> [])"
proof (cases item)
  case None then show ?thesis by (simp add: load_def)
next
  case (Some t)
  show ?thesis
  proof (cases t)
    case Empty with Some show ?thesis by (simp add: load_def)
  next
    case Malformed with Some show ?thesis by (simp add: load_def)
  next
    case (Wellformed v)
    show ?thesis
    proof (cases v)
      case (JArr cs)
      show ?thesis
      proof (cases "every_valid cs")
        case None
        then have "\<not> list_all has_truthy_props cs" using every_valid_all[of cs] by simp
        with None Some Wellformed JArr show ?thesis by (simp add: load_def)
      next
        case b: (Some b)
        then show ?thesis using Some Wellformed JArr every_valid_all[of cs]
          by (cases b) (simp_all add: load_def)
      qed
    qed (use Some Wellformed in \<open>simp_all add: load_def\<close>)
  qed
qed

lemma load_stored:
  "stored (load item) = (if restored (load item) = [] \<and> item \<noteq> Some Empty
                           \<and> item \<noteq> Some (Wellformed (JArr [])) then None else item)"
  by (auto simp: load_def split: option.splits stored_text.splits json.splits bool.splits)

text \<open>
  C3, as amended. The load accepts a stored value exactly when it parses to a list whose
  elements are all objects with truthy \<open>id\<close>, \<open>field\<close> and \<open>direction\<close>
  properties; then the criteria are that list. In every other case (nothing stored, a text
  that does not parse, a value that is no list, an element that fails the test or makes
  it throw) the criteria are empty: the value is kept whole or not at all, and no case
  escapes as an exception.
\<close>

theorem load_all_or_nothing:
  "restored (load item) =
     (case item of
        Some (Wellformed (JArr cs)) \<Rightarrow> if list_all has_truthy_props cs then cs else []
      | _ \<Rightarrow> [])
   \<and> (restored (load item) = [] \<or> item = Some (Wellformed (JArr (restored (load item)))))"
proof
  show r: "restored (load item) =
     (case item of
        Some (Wellformed (JArr cs)) \<Rightarrow> if list_all has_truthy_props cs then cs else []
      | _ \<Rightarrow> [])" by (rule load_restored)
  show "restored (load item) = [] \<or> item = Some (Wellformed (JArr (restored (load item))))"
    unfolding r by (simp split: option.splits stored_text.splits json.splits)
qed

theorem load_all_or_nothing_witness:
  "restored (load (save by_name_then_newest)) = map criterion_json by_name_then_newest
   \<and> restored (load (Some (Wellformed (JArr [criterion_json (by_name_then_newest ! 0), JNull])))) = []
   \<and> restored (load (Some (Wellformed (JArr [criterion_json (by_name_then_newest ! 0), JObj [(''id'', JStr ''x'')]])))) = []
   \<and> restored (load (Some (Wellformed (JObj [(''id'', JStr ''x'')])))) = []
   \<and> restored (load (Some Malformed)) = []
   \<and> restored (load None) = []"
proof -
  have a: "list_all has_truthy_props (map criterion_json by_name_then_newest)"
    by (simp add: by_name_then_newest_def criterion_json_def has_truthy_props_def truthy_prop_def)
  have b: "\<not> list_all has_truthy_props [criterion_json (by_name_then_newest ! 0), JNull]"
    by (simp add: has_truthy_props_def)
  have c: "\<not> list_all has_truthy_props [criterion_json (by_name_then_newest ! 0), JObj [(''id'', JStr ''x'')]]"
    by (simp add: has_truthy_props_def truthy_prop_def)
  show ?thesis
    using load_all_or_nothing[of "save by_name_then_newest", THEN conjunct1]
      load_all_or_nothing[of "Some (Wellformed (JArr [criterion_json (by_name_then_newest ! 0), JNull]))", THEN conjunct1]
      load_all_or_nothing[of "Some (Wellformed (JArr [criterion_json (by_name_then_newest ! 0), JObj [(''id'', JStr ''x'')]]))", THEN conjunct1]
      load_all_or_nothing[of "Some (Wellformed (JObj [(''id'', JStr ''x'')]))", THEN conjunct1]
      load_all_or_nothing[of "Some Malformed", THEN conjunct1]
      load_all_or_nothing[of None, THEN conjunct1]
      a b c
    by (simp add: save_def)
qed

text \<open>
  C3 as stated fails: a stored criterion whose field has no descriptor and whose
  direction is neither \<open>asc\<close> nor \<open>desc\<close> is accepted.
\<close>

theorem load_accepts_unknown_field:
  "''bogus'' \<notin> set (map id_field clientFields)
   \<and> ''sideways'' \<noteq> ''asc'' \<and> ''sideways'' \<noteq> ''desc''
   \<and> restored (load stored_bogus)
       = [JObj [(''id'', JStr ''x''), (''field'', JStr ''bogus''), (''direction'', JStr ''sideways'')]]"
  by (simp add: clientFields_def load_def stored_bogus_def truthy_prop_def)

section \<open>Saving and restoring\<close>

lemma reachable_nonempty:
  "reachable cs \<Longrightarrow> \<forall>c\<in>set cs. id_crit c \<noteq> [] \<and> field c \<noteq> []"
proof (induction rule: reachable.induct)
  case initial then show ?case by simp
next
  case (add cs now f)
  then show ?case by (auto simp: handleAddField_def new_id_def)
next
  case (remove cs i)
  then show ?case by (auto simp: handleRemoveCriterion_def)
next
  case (toggle cs i)
  then show ?case by (auto simp: handleToggleDirection_def)
next
  case (reorder cs active over)
  have "set (handleDragEnd active over cs) = set cs"
    using handleDragEnd_mset[of active over cs] by (metis mset_eq_setD)
  with reorder show ?case by simp
qed

lemma criterion_json_truthy:
  "id_crit c \<noteq> [] \<Longrightarrow> field c \<noteq> [] \<Longrightarrow> has_truthy_props (criterion_json c)"
  by (cases "direction c") (simp_all add: has_truthy_props_def criterion_json_def truthy_prop_def)

lemma direction_text_inj: "direction_text d = direction_text d' \<Longrightarrow> d = d'"
  by (cases d; cases d') simp_all

lemma criterion_json_inj: "criterion_json c = criterion_json c' \<Longrightarrow> c = c'"
  by (cases c; cases c') (auto simp: criterion_json_def dest: direction_text_inj)

lemma map_criterion_json_inj: "map criterion_json cs' = map criterion_json cs \<Longrightarrow> cs' = cs"
  using criterion_json_inj by (metis inj_onI list.inj_map_strong)

text \<open>
  C9. For every criteria sequence the panel can produce from the empty one, saving it
  and loading the saved item restores the objects of exactly these criteria, in order
  (the sequence is the only one with this representation), and the item stays stored.
\<close>

theorem save_load_round_trip:
  assumes "reachable cs"
  shows "restored (load (save cs)) = map criterion_json cs
       \<and> (\<forall>cs'. map criterion_json cs' = restored (load (save cs)) \<longrightarrow> cs' = cs)
       \<and> stored (load (save cs)) = save cs"
proof -
  have "list_all has_truthy_props (map criterion_json cs)"
    using reachable_nonempty[OF assms] by (simp add: list_all_iff criterion_json_truthy)
  then have r: "restored (load (save cs)) = map criterion_json cs"
    by (simp add: load_restored save_def)
  moreover have "stored (load (save cs)) = save cs"
    by (simp add: load_stored r) (simp add: save_def)
  ultimately show ?thesis using map_criterion_json_inj by auto
qed

lemma reachable_example: "reachable by_name_then_newest"
proof -
  have 1: "handleAddField 1 ''name'' [] = [\<lparr>id_crit = ''sort-1-name'', field = ''name'', direction = Asc\<rparr>]"
    by (simp add: handleAddField_def new_id_def show_nat.simps)
  have 2: "handleAddField 2 ''createdAt'' [\<lparr>id_crit = ''sort-1-name'', field = ''name'', direction = Asc\<rparr>]
         = [\<lparr>id_crit = ''sort-1-name'', field = ''name'', direction = Asc\<rparr>,
            \<lparr>id_crit = ''sort-2-createdAt'', field = ''createdAt'', direction = Asc\<rparr>]"
    by (simp add: handleAddField_def new_id_def show_nat.simps)
  have 3: "handleToggleDirection ''sort-2-createdAt''
           [\<lparr>id_crit = ''sort-1-name'', field = ''name'', direction = Asc\<rparr>,
            \<lparr>id_crit = ''sort-2-createdAt'', field = ''createdAt'', direction = Asc\<rparr>]
         = by_name_then_newest"
    by (simp add: handleToggleDirection_def by_name_then_newest_def)
  have "reachable (handleAddField 1 ''name'' [])" by (rule reachable.add[OF reachable.initial])
  then have "reachable (handleAddField 2 ''createdAt'' (handleAddField 1 ''name'' []))"
    by (rule reachable.add)
  then have "reachable (handleToggleDirection ''sort-2-createdAt''
      (handleAddField 2 ''createdAt'' (handleAddField 1 ''name'' [])))"
    by (rule reachable.toggle)
  then show ?thesis by (simp only: 1 2 3)
qed

theorem save_load_round_trip_witness:
  "reachable by_name_then_newest
   \<and> restored (load (save by_name_then_newest)) = map criterion_json by_name_then_newest
   \<and> restored (load (save by_name_then_newest))
       = [JObj [(''id'', JStr ''sort-1-name''), (''field'', JStr ''name''), (''direction'', JStr ''asc'')],
          JObj [(''id'', JStr ''sort-2-createdAt''), (''field'', JStr ''createdAt''), (''direction'', JStr ''desc'')]]
   \<and> stored (load (save by_name_then_newest)) = save by_name_then_newest
   \<and> restored (load (save [])) = []"
proof -
  have v: "map criterion_json by_name_then_newest
       = [JObj [(''id'', JStr ''sort-1-name''), (''field'', JStr ''name''), (''direction'', JStr ''asc'')],
          JObj [(''id'', JStr ''sort-2-createdAt''), (''field'', JStr ''createdAt''), (''direction'', JStr ''desc'')]]"
    by (simp add: by_name_then_newest_def criterion_json_def)
  note t = save_load_round_trip[OF reachable_example]
  note e = save_load_round_trip[OF reachable.initial]
  show ?thesis
    using reachable_example t[THEN conjunct1] t[THEN conjunct1, unfolded v]
      t[THEN conjunct2, THEN conjunct2] e[THEN conjunct1]
    by (intro conjI) simp_all
qed

end
